theory Spec2Isabelle
  imports Main "HOL-Library.Sublist"
begin

section \<open>The repository autocomplete of \<open>RepoUrlParameter\<close> (src/src/pack.ts)\<close>

subsection \<open>Data\<close>

text \<open>
  \<open>types.GitHubRepo\<close>: the declaration is not among the sources. The pack reads two
  properties of a repo object, \<open>name\<close> and \<open>html_url\<close> (the keys handed to
  \<open>coda.autocompleteSearchObjects\<close>), so the record has these two fields.
\<close>

record GitHubRepo =
  name :: string
  html_url :: string

text \<open>
  \<open>coda.Continuation\<close> is an object whose properties are strings, numbers or one level
  of nested object: a list of keys with their values, read with \<open>map_of\<close>. A property
  that is absent reads as \<open>undefined\<close>. Numbers are integers here (the loop only asks
  whether \<open>nextUrl\<close> is truthy).
\<close>

datatype ContinuationValue =
    CString string
  | CNumber int
  | CObject "(string \<times> (string + int)) list"

type_synonym Continuation = "(string \<times> ContinuationValue) list"

text \<open>What \<open>helpers.getRepos\<close> resolves to: \<open>{result, continuation}\<close>.\<close>

record GetReposResponse =
  result :: "GitHubRepo list"
  continuation :: "Continuation option"

text \<open>JavaScript truthiness of a property value: \<open>""\<close> and \<open>0\<close> are falsy, an object is truthy.\<close>

fun truthy :: "ContinuationValue \<Rightarrow> bool" where
  "truthy (CString s) = (s \<noteq> [])"
| "truthy (CNumber n) = (n \<noteq> 0)"
| "truthy (CObject kvs) = True"

text \<open>The loop condition \<open>continuation && continuation.nextUrl\<close>.\<close>

definition loop_condition :: "Continuation option \<Rightarrow> bool" where
  "loop_condition c =
     (case c of
        None \<Rightarrow> False
      | Some k \<Rightarrow> (case map_of k ''nextUrl'' of None \<Rightarrow> False | Some v \<Rightarrow> truthy v))"

subsection \<open>The do-while loop\<close>

text \<open>
  \<open>helpers.getRepos(context, continuation)\<close> performs a network request: it is a
  parameter \<open>getRepos\<close> that takes the state of the world \<open>w\<close> (what \<open>context\<close> reaches)
  and the continuation, and returns either a thrown error (\<open>Inl\<close>) or a response,
  together with the world after the call. The loop
  \<^verbatim>\<open>
    do {
      let response = await helpers.getRepos(context, continuation);
      results = results.concat(...response.result);
      ({ continuation } = response);
    } while (continuation && continuation.nextUrl);
  \<close>
  may run forever; not returning is the value \<open>None\<close>. An error thrown by
  \<open>getRepos\<close> leaves the loop and the formula.
\<close>

partial_function (option) autocomplete_loop ::
  "('w \<Rightarrow> Continuation option \<Rightarrow> ('e + GetReposResponse) \<times> 'w) \<Rightarrow>
   GitHubRepo list \<Rightarrow> Continuation option \<Rightarrow> 'w \<Rightarrow> (('e + GitHubRepo list) \<times> 'w) option"
where
  "autocomplete_loop getRepos results cont w =
     (case getRepos w cont of
        (Inl e, w') \<Rightarrow> Some (Inl e, w')
      | (Inr response, w') \<Rightarrow>
          (if loop_condition (continuation response)
           then autocomplete_loop getRepos (results @ result response) (continuation response) w'
           else Some (Inr (results @ result response), w')))"

text \<open>
  The formula: \<open>results\<close> starts empty, \<open>continuation\<close> starts \<open>undefined\<close>, and after
  the loop the collected repos go to \<open>coda.autocompleteSearchObjects(search, results,
  "name", "html_url")\<close>, here the parameter \<open>searchObjects\<close> with the two keys as the
  record's selectors.
\<close>

definition autocomplete ::
  "('w \<Rightarrow> Continuation option \<Rightarrow> ('e + GetReposResponse) \<times> 'w) \<Rightarrow>
   (string \<Rightarrow> GitHubRepo list \<Rightarrow> (GitHubRepo \<Rightarrow> string) \<Rightarrow> (GitHubRepo \<Rightarrow> string) \<Rightarrow> 'a) \<Rightarrow>
   'w \<Rightarrow> string \<Rightarrow> (('e + 'a) \<times> 'w) option"
where
  "autocomplete getRepos searchObjects w search =
     (case autocomplete_loop getRepos [] None w of
        None \<Rightarrow> None
      | Some (Inl e, w') \<Rightarrow> Some (Inl e, w')
      | Some (Inr results, w') \<Rightarrow> Some (Inr (searchObjects search results name html_url), w'))"

text \<open>
  A run of the loop described from outside: \<open>fetched getRepos w c rs\<close> is the
  continuation and the world before the next call, after the calls of \<open>getRepos\<close>
  starting from \<open>(w, c)\<close> returned the responses \<open>rs\<close> in this order, each call fed the
  continuation of the response before it, and each response asking for another
  iteration. It is \<open>None\<close> when \<open>getRepos\<close> does not answer so.
\<close>

fun fetched ::
  "('w \<Rightarrow> Continuation option \<Rightarrow> ('e + GetReposResponse) \<times> 'w) \<Rightarrow>
   'w \<Rightarrow> Continuation option \<Rightarrow> GetReposResponse list \<Rightarrow> (Continuation option \<times> 'w) option"
where
  "fetched getRepos w c [] = Some (c, w)"
| "fetched getRepos w c (r # rs) =
     (case getRepos w c of
        (Inl e, w') \<Rightarrow> None
      | (Inr r0, w') \<Rightarrow>
          (if r0 = r \<and> loop_condition (continuation r)
           then fetched getRepos w' (continuation r) rs else None))"

text \<open>A fetcher that also counts its calls, to observe how many the loop makes.\<close>

definition counting ::
  "('w \<Rightarrow> Continuation option \<Rightarrow> ('e + GetReposResponse) \<times> 'w) \<Rightarrow>
   (nat \<times> 'w) \<Rightarrow> Continuation option \<Rightarrow> ('e + GetReposResponse) \<times> (nat \<times> 'w)"
where
  "counting getRepos nw c =
     (case getRepos (snd nw) c of (r, w') \<Rightarrow> (r, (Suc (fst nw), w')))"

text \<open>Every way the loop returns: some responses that ask for more, then either a
  thrown error or a response that does not.\<close>

definition loop_outcome ::
  "('w \<Rightarrow> Continuation option \<Rightarrow> ('e + GetReposResponse) \<times> 'w) \<Rightarrow>
   GitHubRepo list \<Rightarrow> Continuation option \<Rightarrow> 'w \<Rightarrow> (('e + GitHubRepo list) \<times> 'w) \<Rightarrow> bool"
where
  "loop_outcome g acc c w y =
    (\<exists>rs c1 w1. fetched g w c rs = Some (c1, w1) \<and>
     ((\<exists>e. g w1 c1 = (Inl e, snd y) \<and> fst y = Inl e) \<or>
      (\<exists>r. g w1 c1 = (Inr r, snd y) \<and> \<not> loop_condition (continuation r) \<and>
           fst y = Inr (acc @ concat (map result rs) @ result r))))"

subsection \<open>Example services\<close>

text \<open>
  The error kinds of the design (its section 7). The loop is polymorphic in the error
  it propagates; the examples use these.
\<close>

datatype Error =
    InvalidReferenceError
  | UnsupportedResourceError
  | TransientFetchError
  | RemoteRejectedError nat string
  | MalformedResponseError

text \<open>
  A remote service for the examples: the world is the number of requests made so far,
  and the \<open>n\<close>-th request is answered from the \<open>n\<close>-th line of a script when it
  carries the continuation that line expects, and rejected otherwise.
\<close>

definition scripted ::
  "(Continuation option \<times> (Error + GetReposResponse)) list \<Rightarrow>
   nat \<Rightarrow> Continuation option \<Rightarrow> (Error + GetReposResponse) \<times> nat"
where
  "scripted script n c =
     (if n < length script \<and> fst (script ! n) = c then snd (script ! n)
      else Inl (RemoteRejectedError 404 ''Not Found''),
      Suc n)"

definition widgets :: GitHubRepo where
  "widgets = \<lparr>name = ''widgets'', html_url = ''https://github.com/acme/widgets''\<rparr>"

definition gadgets :: GitHubRepo where
  "gadgets = \<lparr>name = ''Gadgets'', html_url = ''https://github.com/acme/Gadgets''\<rparr>"

definition tools :: GitHubRepo where
  "tools = \<lparr>name = ''dev-tools'', html_url = ''https://github.com/acme/dev-tools''\<rparr>"

definition page2 :: Continuation where
  "page2 = [(''nextUrl'', CString ''https://api.github.com/user/repos?page=2'')]"

definition page3 :: Continuation where
  "page3 = [(''nextUrl'', CString ''https://api.github.com/user/repos?page=3'')]"

text \<open>A continuation without a \<open>nextUrl\<close>.\<close>

definition numbered :: Continuation where
  "numbered = [(''page'', CNumber 2)]"

text \<open>What the search helper is in the examples that do not look at it: the names.\<close>

definition names_only ::
  "string \<Rightarrow> GitHubRepo list \<Rightarrow> (GitHubRepo \<Rightarrow> string) \<Rightarrow> (GitHubRepo \<Rightarrow> string) \<Rightarrow> string list"
where
  "names_only search objs displayKey valueKey = map displayKey objs"

section \<open>The parameters and formulas the pack declares (src/src/pack.ts)\<close>

text \<open>
  The members of \<open>coda.ParameterType\<close> that matter here: the scalar types the pack
  uses and the array types it could have used.
\<close>

datatype ParameterType =
    ParameterType_String
  | ParameterType_Number
  | ParameterType_Boolean
  | ParameterType_Date
  | ParameterType_StringArray
  | ParameterType_NumberArray

text \<open>
  A parameter's autocomplete is absent, a fixed list of \<open>{display, value}\<close> options, or
  a formula (the one of \<open>RepoUrlParameter\<close>, modelled above).
\<close>

datatype AutocompleteDef =
    NoAutocomplete
  | Options "(string \<times> string) list"
  | Formula

text \<open>
  The object handed to \<open>coda.makeParameter\<close>. \<open>optional\<close> is \<open>None\<close> where the object
  has no such key; \<open>name\<close> and \<open>type\<close> are \<open>param_name\<close> and \<open>param_type\<close>.
\<close>

record ParamDef =
  param_type :: ParameterType
  param_name :: string
  description :: string
  optional :: "bool option"
  param_autocomplete :: AutocompleteDef

text \<open>A parameter must be given unless its definition says \<open>optional: true\<close>.\<close>

definition required :: "ParamDef \<Rightarrow> bool" where
  "required p = (optional p \<noteq> Some True)"

text \<open>
  Modelled from the spec: \<open>types.PullRequestStateFilter\<close> (types.ts is not among the
  sources); the spec gives the state filter as \<open>enum{open, closed, all}\<close>.
\<close>

definition PullRequestStateFilter_Open :: string where
  "PullRequestStateFilter_Open = ''open''"

definition PullRequestStateFilter_Closed :: string where
  "PullRequestStateFilter_Closed = ''closed''"

definition PullRequestStateFilter_All :: string where
  "PullRequestStateFilter_All = ''all''"

definition RepoUrlParameter :: ParamDef where
  \<open>RepoUrlParameter =
     \<lparr>param_type = ParameterType_String,
      param_name = ''repoUrl'',
      description = ''The URL of the repository to list pull requests from. For example, "https://github.com/[org]/[repo]".'',
      optional = None,
      param_autocomplete = Formula\<rparr>\<close>

definition BaseParameterOptional :: ParamDef where
  \<open>BaseParameterOptional =
     \<lparr>param_type = ParameterType_String,
      param_name = ''base'',
      description = ''The name of the base branch. For example, "main".'',
      optional = Some True,
      param_autocomplete = NoAutocomplete\<rparr>\<close>

definition PullRequestStateOptional :: ParamDef where
  \<open>PullRequestStateOptional =
     \<lparr>param_type = ParameterType_String,
      param_name = ''state'',
      description = ''Returns pull requests in the given state. If unspecified, defaults to "open".'',
      optional = Some True,
      param_autocomplete = Options
        [(''Open pull requests only'', PullRequestStateFilter_Open),
         (''Closed pull requests only'', PullRequestStateFilter_Closed),
         (''All pull requests'', PullRequestStateFilter_All)]\<rparr>\<close>

definition IssueStateOptional :: ParamDef where
  \<open>IssueStateOptional =
     \<lparr>param_type = ParameterType_String,
      param_name = ''state'',
      description = ''Returns issues in the given state. If unspecified, defaults to "open".'',
      optional = Some True,
      param_autocomplete = Options
        [(''Open issues only'', ''open''),
         (''Closed issues only'', ''closed''),
         (''All issues'', ''all'')]\<rparr>\<close>

definition IssueNumberParameter :: ParamDef where
  "IssueNumberParameter =
     \<lparr>param_type = ParameterType_Number,
      param_name = ''issueNumber'',
      description = ''The number of the issue.'',
      optional = None,
      param_autocomplete = NoAutocomplete\<rparr>"

definition IssueTitleParameter :: ParamDef where
  "IssueTitleParameter =
     \<lparr>param_type = ParameterType_String,
      param_name = ''title'',
      description = ''The title of the issue.'',
      optional = Some True,
      param_autocomplete = NoAutocomplete\<rparr>"

definition IssueBodyParameter :: ParamDef where
  "IssueBodyParameter =
     \<lparr>param_type = ParameterType_String,
      param_name = ''body'',
      description = ''The body content of the issue.'',
      optional = Some True,
      param_autocomplete = NoAutocomplete\<rparr>"

definition IssueStateParameter :: ParamDef where
  \<open>IssueStateParameter =
     \<lparr>param_type = ParameterType_String,
      param_name = ''state'',
      description = ''The state of the issue. Can be "open" or "closed".'',
      optional = Some True,
      param_autocomplete = Options [(''Open'', ''open''), (''Closed'', ''closed'')]\<rparr>\<close>

definition TitleParameter :: ParamDef where
  "TitleParameter =
     \<lparr>param_type = ParameterType_String,
      param_name = ''title'',
      description = ''The title of the issue.'',
      optional = None,
      param_autocomplete = NoAutocomplete\<rparr>"

definition BodyParameter :: ParamDef where
  "BodyParameter =
     \<lparr>param_type = ParameterType_String,
      param_name = ''body'',
      description = ''The body content of the issue.'',
      optional = Some True,
      param_autocomplete = NoAutocomplete\<rparr>"

definition LabelsParameter :: ParamDef where
  "LabelsParameter =
     \<lparr>param_type = ParameterType_String,
      param_name = ''labels'',
      description = ''Comma-separated list of labels to assign to the issue.'',
      optional = Some True,
      param_autocomplete = NoAutocomplete\<rparr>"

definition AssigneesParameter :: ParamDef where
  "AssigneesParameter =
     \<lparr>param_type = ParameterType_String,
      param_name = ''assignees'',
      description = ''Comma-separated list of assignees for the issue.'',
      optional = Some True,
      param_autocomplete = NoAutocomplete\<rparr>"

text \<open>
  A formula as the pack registers it: its name, its description and its parameters in
  order. \<open>execute\<close> of each hands \<open>params\<close> and \<open>context\<close> to a function of
  \<open>helpers\<close>, which is not among the sources.
\<close>

record FormulaDef =
  formula_name :: string
  formula_description :: string
  parameters :: "ParamDef list"

definition PullRequests_formula :: FormulaDef where
  "PullRequests_formula =
     \<lparr>formula_name = ''PullRequests'',
      formula_description = ''Sync pull requests from GitHub.'',
      parameters = [RepoUrlParameter, BaseParameterOptional, PullRequestStateOptional]\<rparr>"

text \<open>The state parameter of \<open>SyncIssues\<close> is written in place; it has the fields of
  \<open>IssueStateOptional\<close>.\<close>

definition SyncIssues_formula :: FormulaDef where
  "SyncIssues_formula =
     \<lparr>formula_name = ''SyncIssues'',
      formula_description = ''Sync issues from a GitHub repository.'',
      parameters = [RepoUrlParameter, IssueStateOptional]\<rparr>"

definition UpdateIssue_formula :: FormulaDef where
  "UpdateIssue_formula =
     \<lparr>formula_name = ''UpdateIssue'',
      formula_description = ''Update an issue on GitHub.'',
      parameters =
        [RepoUrlParameter, IssueNumberParameter, IssueTitleParameter, IssueBodyParameter,
         IssueStateParameter]\<rparr>"

definition CreateIssue_formula :: FormulaDef where
  "CreateIssue_formula =
     \<lparr>formula_name = ''CreateIssue'',
      formula_description = ''Create a new issue on GitHub.'',
      parameters =
        [RepoUrlParameter, TitleParameter, BodyParameter, LabelsParameter,
         AssigneesParameter]\<rparr>"

section \<open>Components the sources do not contain, from the design\<close>

subsection \<open>RepoResolver\<close>

text \<open>\<open>HOST\<close> is a constant of src/src/pack.ts.\<close>

definition HOST :: string where
  "HOST = ''github.com''"

text \<open>
  Modelled from the spec: \<open>RepositoryReference\<close>, \<open>{owner, name}\<close> in the data model of
  the design (no declaration of it is among the sources). The second field is \<open>name'\<close>
  here, the name \<open>name\<close> being the repo object's.
\<close>

record RepositoryReference =
  owner :: string
  name' :: string

text \<open>
  Modelled from the spec: the steps of \<open>RepoResolver.resolve\<close>, which is not among the
  sources. \<open>split_on\<close> gives the pieces of a string between the occurrences of a
  separator; \<open>strip_scheme\<close> takes the scheme off, \<open>https\<close> or \<open>http\<close>;
  \<open>strip_trailing_slash\<close> takes one slash off the end.
\<close>

fun split_on :: "char \<Rightarrow> string \<Rightarrow> string list" where
  "split_on d [] = [[]]"
| "split_on d (c # cs) =
     (if c = d then [] # split_on d cs
      else (case split_on d cs of [] \<Rightarrow> [[c]] | s # ss \<Rightarrow> (c # s) # ss))"

definition strip_scheme :: "string \<Rightarrow> string option" where
  "strip_scheme url =
     (if prefix ''https://'' url then Some (drop 8 url)
      else if prefix ''http://'' url then Some (drop 7 url)
      else None)"

definition strip_trailing_slash :: "string \<Rightarrow> string" where
  "strip_trailing_slash s = (if s \<noteq> [] \<and> last s = CHR ''/'' then butlast s else s)"

text \<open>
  Modelled from the spec: the owner and the name of a \<open>RepositoryReference\<close> are
  non-empty, URL-safe path segments (section 3 of the design). The URL-safe characters
  are the letters, the digits and \<open>- . _ ~\<close>; so a segment has no slash, no \<open>?\<close>, no
  \<open>#\<close> and no space.
\<close>

definition url_safe :: "char \<Rightarrow> bool" where
  "url_safe c =
     (c \<in> set ''ABCDEFGHIJKLMNOPQRSTUVWXYZabcdefghijklmnopqrstuvwxyz0123456789-._~'')"

definition path_segment :: "string \<Rightarrow> bool" where
  "path_segment s = (s \<noteq> [] \<and> list_all url_safe s)"

text \<open>
  Modelled from the spec: \<open>RepoResolver.resolve\<close>, the function of \<open>helpers\<close> that parses
  a repository URL (helpers.ts is not among the sources). The design: the string must
  have the shape \<open><host>/<owner>/<name>\<close> after an \<open>http\<close> or \<open>https\<close> scheme, one
  trailing slash is tolerated, and missing segments, an owner or name that is empty or
  not a URL-safe segment, or a wrong host fail with \<open>InvalidReferenceError\<close>.
\<close>

definition resolve :: "string \<Rightarrow> Error + RepositoryReference" where
  "resolve url =
     (case strip_scheme url of
        None \<Rightarrow> Inl InvalidReferenceError
      | Some rest \<Rightarrow>
          (case split_on (CHR ''/'') (strip_trailing_slash rest) of
             [h, ow, nm] \<Rightarrow>
               (if h = HOST \<and> path_segment ow \<and> path_segment nm
                then Inr \<lparr>owner = ow, name' = nm\<rparr>
                else Inl InvalidReferenceError)
           | _ \<Rightarrow> Inl InvalidReferenceError))"

text \<open>
  The URLs the design calls valid: \<open>url\<close> is a repository URL for \<open>ow\<close> and \<open>nm\<close> when
  it is a scheme, the host, and the two as URL-safe path segments, with or without a
  slash at the end.
\<close>

definition schemes :: "string set" where
  "schemes = {''https://'', ''http://''}"

definition trailing :: "string set" where
  "trailing = {[], ''/''}"

definition repo_url :: "string \<Rightarrow> string \<Rightarrow> string \<Rightarrow> string \<Rightarrow> string" where
  "repo_url scheme ow nm slash = scheme @ HOST @ ''/'' @ ow @ ''/'' @ nm @ slash"

definition is_repo_url :: "string \<Rightarrow> string \<Rightarrow> string \<Rightarrow> bool" where
  "is_repo_url url ow nm =
     (path_segment ow \<and> path_segment nm \<and>
      (\<exists>scheme slash. scheme \<in> schemes \<and> slash \<in> trailing \<and>
         url = repo_url scheme ow nm slash))"

subsection \<open>RequestBuilder and the request of a SyncStep\<close>

text \<open>
  Modelled from the spec: the continuation token (an opaque next-page URL), the filter
  set (\<open>base\<close> and \<open>state\<close>, both optional), the resource kinds and the request, as
  sections 3, 4.2 and 6 of the design give them; no declaration of them is among the
  sources.
\<close>

type_synonym ContinuationToken = string

record FilterSet =
  base :: "string option"
  state :: "string option"

datatype ResourceKind = Repos | PullRequests | Issues

text \<open>
  A request addresses either the list endpoint of a resource kind for a repository, or
  the next page a continuation token names; it carries query parameters.
\<close>

datatype Endpoint =
    ListEndpoint ResourceKind RepositoryReference
  | NextPage ContinuationToken

record HttpRequestSpec =
  http_method :: string
  endpoint :: Endpoint
  query :: "(string \<times> string) list"

text \<open>
  Modelled from the spec: \<open>RequestBuilder.build\<close> (the request construction of
  \<open>helpers\<close>, not among the sources). With no continuation: the list endpoint, with
  the filters as query parameters and \<open>state\<close> defaulted to \<open>open\<close>. With a continuation:
  the token as the whole request, no filter applied. The resource kinds are the three
  of the design, so no kind is unknown.
\<close>

definition build ::
  "ResourceKind \<Rightarrow> RepositoryReference \<Rightarrow> FilterSet \<Rightarrow> ContinuationToken option \<Rightarrow> HttpRequestSpec"
where
  "build kind repo filters cont =
     (case cont of
        None \<Rightarrow>
          \<lparr>http_method = ''GET'',
           endpoint = ListEndpoint kind repo,
           query =
             (case base filters of None \<Rightarrow> [] | Some b \<Rightarrow> [(''base'', b)]) @
             [(''state'', (case state filters of None \<Rightarrow> ''open'' | Some s \<Rightarrow> s))]\<rparr>
      | Some token \<Rightarrow>
          \<lparr>http_method = ''GET'', endpoint = NextPage token, query = []\<rparr>)"

text \<open>Modelled from the spec: the inbound parameters of a sync (section 6 of the design).\<close>

record SyncParams =
  repoUrl :: string
  filters :: FilterSet

text \<open>
  Modelled from the spec: the request a \<open>SyncStep\<close> builds (\<open>helpers.getPullRequests\<close>
  and \<open>helpers.getIssues\<close> are not among the sources). Initial state: resolve the repo
  from \<open>params.repoUrl\<close>, build the filtered first-page request. Continuing state: no
  resolution and no filters, the request is built from the token.
\<close>

definition step_request ::
  "ResourceKind \<Rightarrow> SyncParams \<Rightarrow> ContinuationToken option \<Rightarrow> Error + HttpRequestSpec"
where
  "step_request kind params prior =
     (case prior of
        None \<Rightarrow>
          (case resolve (repoUrl params) of
             Inl e \<Rightarrow> Inl e
           | Inr repo \<Rightarrow> Inr (build kind repo (filters params) None))
      | Some token \<Rightarrow>
          Inr \<lparr>http_method = ''GET'', endpoint = NextPage token, query = []\<rparr>)"

subsection \<open>SyncStep and the sequence of its calls\<close>

text \<open>
  Modelled from the spec: \<open>PageResult\<close> (section 3 of the design), the records of one
  page in order and the continuation token of the next page, null on the final page.
  The second field is \<open>page_continuation\<close> here.
\<close>

record 'rec PageResult =
  records :: "'rec list"
  page_continuation :: "ContinuationToken option"

text \<open>
  Modelled from the spec: what a \<open>SyncStep\<close> returns, \<open>{rows, continuation}\<close> (section
  4.5 of the design). The second field is \<open>next_continuation\<close> here.
\<close>

record 'row StepResult =
  rows :: "'row list"
  next_continuation :: "ContinuationToken option"

text \<open>
  Modelled from the spec: \<open>ResponseMapper.map\<close> over the records of a page (section 4.4
  of the design). The mapping of one record is a parameter \<open>f\<close> (the row schemas are not
  among the sources); a record it refuses is an error of the page, never a dropped row.
\<close>

fun map_rows :: "('rec \<Rightarrow> Error + 'row) \<Rightarrow> 'rec list \<Rightarrow> Error + 'row list" where
  "map_rows f [] = Inr []"
| "map_rows f (r # rs) =
     (case f r of
        Inl e \<Rightarrow> Inl e
      | Inr row \<Rightarrow> (case map_rows f rs of Inl e \<Rightarrow> Inl e | Inr others \<Rightarrow> Inr (row # others)))"

text \<open>
  Modelled from the spec: \<open>SyncStep.step\<close> (section 4.5 of the design; \<open>helpers.ts\<close> is
  not among the sources): build the request, fetch one page, map its records, return
  the rows with the page's continuation. \<open>PageFetcher.fetch\<close> performs the network
  request: it is a parameter \<open>fetch\<close> that takes the state of the world and the request
  and returns an error or a page, with the world after the request. Every failure
  ends the step with that error.
\<close>

definition step ::
  "('w \<Rightarrow> HttpRequestSpec \<Rightarrow> (Error + 'rec PageResult) \<times> 'w) \<Rightarrow>
   (ResourceKind \<Rightarrow> 'rec \<Rightarrow> Error + 'row) \<Rightarrow>
   ResourceKind \<Rightarrow> SyncParams \<Rightarrow> ContinuationToken option \<Rightarrow> 'w \<Rightarrow>
   (Error + 'row StepResult) \<times> 'w"
where
  "step fetch mapper kind params prior w =
     (case step_request kind params prior of
        Inl e \<Rightarrow> (Inl e, w)
      | Inr req \<Rightarrow>
          (case fetch w req of
             (Inl e, w') \<Rightarrow> (Inl e, w')
           | (Inr page, w') \<Rightarrow>
               (case map_rows (mapper kind) (records page) of
                  Inl e \<Rightarrow> (Inl e, w')
                | Inr rs \<Rightarrow>
                    (Inr \<lparr>rows = rs, next_continuation = page_continuation page\<rparr>, w'))))"

text \<open>
  Modelled from the spec: the sequence of \<open>SyncStep\<close> calls of one sync (sections 4.5 and
  8 of the design; the host that makes the calls is outside the repository). The first
  call has no continuation, each later call is fed the continuation the call before it
  returned, the rows are concatenated in this order, and the sequence ends when a step
  returns no continuation; a step that fails ends it with the error. The service may
  hand out continuations forever; not returning is the value \<open>None\<close>.
\<close>

partial_function (option) sync_sequence ::
  "('w \<Rightarrow> HttpRequestSpec \<Rightarrow> (Error + 'rec PageResult) \<times> 'w) \<Rightarrow>
   (ResourceKind \<Rightarrow> 'rec \<Rightarrow> Error + 'row) \<Rightarrow>
   ResourceKind \<Rightarrow> SyncParams \<Rightarrow> 'row list \<Rightarrow> ContinuationToken option \<Rightarrow> 'w \<Rightarrow>
   ((Error + 'row list) \<times> 'w) option"
where
  "sync_sequence fetch mapper kind params acc prior w =
     (case step fetch mapper kind params prior w of
        (Inl e, w') \<Rightarrow> Some (Inl e, w')
      | (Inr r, w') \<Rightarrow>
          (case next_continuation r of
             None \<Rightarrow> Some (Inr (acc @ rows r), w')
           | Some token \<Rightarrow>
               sync_sequence fetch mapper kind params (acc @ rows r) (Some token) w'))"

text \<open>
  For the examples: a service that answers the \<open>n\<close>-th request from the \<open>n\<close>-th line of
  a script when it is the request that line expects, and a mapping of issue titles that
  refuses an empty title.
\<close>

definition scripted_pages ::
  "(HttpRequestSpec \<times> (Error + string PageResult)) list \<Rightarrow>
   nat \<Rightarrow> HttpRequestSpec \<Rightarrow> (Error + string PageResult) \<times> nat"
where
  "scripted_pages script n req =
     (if n < length script \<and> fst (script ! n) = req then snd (script ! n)
      else Inl (RemoteRejectedError 404 ''Not Found''),
      Suc n)"

definition title_row :: "ResourceKind \<Rightarrow> string \<Rightarrow> Error + string" where
  "title_row kind title = (if title = [] then Inl MalformedResponseError else Inr title)"

section \<open>Properties of the loop\<close>

lemma loop_step_error:
  "getRepos w c = (Inl e, w') \<Longrightarrow> autocomplete_loop getRepos acc c w = Some (Inl e, w')"
  by (subst autocomplete_loop.simps) simp

lemma loop_step_last:
  "getRepos w c = (Inr r, w') \<Longrightarrow> \<not> loop_condition (continuation r) \<Longrightarrow>
   autocomplete_loop getRepos acc c w = Some (Inr (acc @ result r), w')"
  by (subst autocomplete_loop.simps) simp

lemma loop_step_more:
  "getRepos w c = (Inr r, w') \<Longrightarrow> loop_condition (continuation r) \<Longrightarrow>
   autocomplete_loop getRepos acc c w =
   autocomplete_loop getRepos (acc @ result r) (continuation r) w'"
  by (subst autocomplete_loop.simps) simp

text \<open>After the responses \<open>rs\<close>, the loop is where it would be had it started there
  with their records accumulated.\<close>

lemma loop_fetched:
  "fetched getRepos w c rs = Some (c1, w1) \<Longrightarrow>
   autocomplete_loop getRepos acc c w =
   autocomplete_loop getRepos (acc @ concat (map result rs)) c1 w1"
proof (induction rs arbitrary: w c acc)
  case Nil
  then show ?case by simp
next
  case (Cons r rs)
  obtain x w' where g: "getRepos w c = (x, w')" by (cases "getRepos w c")
  from Cons.prems g obtain r0 where x: "x = Inr r0"
    by (cases x) auto
  from Cons.prems g x have r0: "r0 = r" and lc: "loop_condition (continuation r)"
    and rest: "fetched getRepos w' (continuation r) rs = Some (c1, w1)"
    by (auto split: if_splits)
  from g x r0 have "getRepos w c = (Inr r, w')" by simp
  from loop_step_more [of getRepos w c r w' acc, OF this lc]
  have "autocomplete_loop getRepos acc c w =
        autocomplete_loop getRepos (acc @ result r) (continuation r) w'" .
  also have "\<dots> = autocomplete_loop getRepos ((acc @ result r) @ concat (map result rs)) c1 w1"
    by (rule Cons.IH [OF rest])
  finally show ?case by simp
qed

lemma loop_returns:
  assumes "autocomplete_loop g0 acc0 c0 w0 = Some y0"
  shows "loop_outcome g0 acc0 c0 w0 y0"
proof (rule autocomplete_loop.raw_induct [OF _ assms])
  fix f :: "('w \<Rightarrow> Continuation option \<Rightarrow> ('e + GetReposResponse) \<times> 'w) \<Rightarrow>
     GitHubRepo list \<Rightarrow> Continuation option \<Rightarrow> 'w \<Rightarrow> (('e + GitHubRepo list) \<times> 'w) option"
    and g acc c w y
  assume IH: "\<And>g acc c w y. f g acc c w = Some y \<Longrightarrow> loop_outcome g acc c w y"
    and eq: "(case g w c of
                (Inl e, w') \<Rightarrow> Some (Inl e, w')
              | (Inr response, w') \<Rightarrow>
                  (if loop_condition (continuation response)
                   then f g (acc @ result response) (continuation response) w'
                   else Some (Inr (acc @ result response), w'))) = Some y"
  obtain x w' where gw: "g w c = (x, w')" by (cases "g w c")
  show "loop_outcome g acc c w y"
  proof (cases x)
    case (Inl e)
    with eq gw have "y = (Inl e, w')" by simp
    with gw Inl have "fetched g w c [] = Some (c, w) \<and> g w c = (Inl e, snd y) \<and> fst y = Inl e"
      by simp
    then show ?thesis unfolding loop_outcome_def by blast
  next
    case (Inr r)
    show ?thesis
    proof (cases "loop_condition (continuation r)")
      case False
      with eq gw Inr have "y = (Inr (acc @ result r), w')" by simp
      with gw Inr False
      have "fetched g w c [] = Some (c, w) \<and> g w c = (Inr r, snd y) \<and>
            \<not> loop_condition (continuation r) \<and>
            fst y = Inr (acc @ concat (map result []) @ result r)"
        by simp
      then show ?thesis unfolding loop_outcome_def by blast
    next
      case True
      with eq gw Inr have "f g (acc @ result r) (continuation r) w' = Some y" by simp
      then have "loop_outcome g (acc @ result r) (continuation r) w' y" by (rule IH)
      then obtain rs c1 w1 where
        f: "fetched g w' (continuation r) rs = Some (c1, w1)" and
        o: "(\<exists>e. g w1 c1 = (Inl e, snd y) \<and> fst y = Inl e) \<or>
            (\<exists>r'. g w1 c1 = (Inr r', snd y) \<and> \<not> loop_condition (continuation r') \<and>
               fst y = Inr ((acc @ result r) @ concat (map result rs) @ result r'))"
        unfolding loop_outcome_def by blast
      from f gw Inr True have "fetched g w c (r # rs) = Some (c1, w1)" by simp
      moreover from o have "(\<exists>e. g w1 c1 = (Inl e, snd y) \<and> fst y = Inl e) \<or>
            (\<exists>r'. g w1 c1 = (Inr r', snd y) \<and> \<not> loop_condition (continuation r') \<and>
               fst y = Inr (acc @ concat (map result (r # rs)) @ result r'))"
        by simp
      ultimately show ?thesis unfolding loop_outcome_def by blast
    qed
  qed
qed

lemma not_loop_condition_None: "\<not> loop_condition None"
  by (simp add: loop_condition_def)

lemma not_loop_condition_falsy:
  "map_of k ''nextUrl'' = None \<or> (\<exists>v. map_of k ''nextUrl'' = Some v \<and> \<not> truthy v) \<Longrightarrow>
   \<not> loop_condition (Some k)"
  by (auto simp: loop_condition_def)

lemma fetched_counting:
  "fetched (counting g) (n, w) c rs =
   map_option (\<lambda>(c1, w1). (c1, (n + length rs, w1))) (fetched g w c rs)"
  by (induction rs arbitrary: n w c) (auto simp: counting_def split: prod.splits sum.splits)

section \<open>Claims about the autocomplete formula\<close>

text \<open>
  Claim C3, as amended. The formula returns a result exactly when the fetches form one
  chain: the first call of \<open>getRepos\<close> is made with no continuation, every later call
  with the continuation of the response before it and in the world that call left, the
  responses \<open>rs\<close> each carry a continuation with a truthy \<open>nextUrl\<close>, and the last
  response \<open>r\<close> does not (its continuation is null, or has no truthy \<open>nextUrl\<close>).
  The records of all these pages, concatenated in page order, are handed to the search
  helper in one call, after the last fetch.
\<close>

theorem autocomplete_pages_in_order:
  "autocomplete getRepos searchObjects w search = Some (Inr out, w') \<longleftrightarrow>
   (\<exists>rs c1 w1 r.
      fetched getRepos w None rs = Some (c1, w1) \<and>
      getRepos w1 c1 = (Inr r, w') \<and>
      \<not> loop_condition (continuation r) \<and>
      out = searchObjects search (concat (map result rs) @ result r) name html_url)"
proof
  assume a: "autocomplete getRepos searchObjects w search = Some (Inr out, w')"
  then obtain results where
    l: "autocomplete_loop getRepos [] None w = Some (Inr results, w')" and
    out: "out = searchObjects search results name html_url"
    by (auto simp: autocomplete_def split: option.splits prod.splits sum.splits)
  from loop_returns [OF l] obtain rs c1 w1 r where
    "fetched getRepos w None rs = Some (c1, w1)"
    "getRepos w1 c1 = (Inr r, w')" "\<not> loop_condition (continuation r)"
    "results = concat (map result rs) @ result r"
    unfolding loop_outcome_def by auto
  with out show "\<exists>rs c1 w1 r.
      fetched getRepos w None rs = Some (c1, w1) \<and>
      getRepos w1 c1 = (Inr r, w') \<and>
      \<not> loop_condition (continuation r) \<and>
      out = searchObjects search (concat (map result rs) @ result r) name html_url"
    by blast
next
  assume "\<exists>rs c1 w1 r.
      fetched getRepos w None rs = Some (c1, w1) \<and>
      getRepos w1 c1 = (Inr r, w') \<and>
      \<not> loop_condition (continuation r) \<and>
      out = searchObjects search (concat (map result rs) @ result r) name html_url"
  then obtain rs c1 w1 r where
    f: "fetched getRepos w None rs = Some (c1, w1)" and
    g: "getRepos w1 c1 = (Inr r, w')" and n: "\<not> loop_condition (continuation r)" and
    out: "out = searchObjects search (concat (map result rs) @ result r) name html_url"
    by blast
  have "autocomplete_loop getRepos [] None w =
        autocomplete_loop getRepos ([] @ concat (map result rs)) c1 w1"
    by (rule loop_fetched [OF f])
  also have "\<dots> = Some (Inr (([] @ concat (map result rs)) @ result r), w')"
    by (rule loop_step_last) (rule g, rule n)
  finally show "autocomplete getRepos searchObjects w search = Some (Inr out, w')"
    by (simp add: autocomplete_def out)
qed

text \<open>
  An instance of C3: two pages; the second response has no continuation.
\<close>

theorem autocomplete_pages_in_order_witness:
  "autocomplete
     (scripted [(None, Inr \<lparr>result = [widgets, gadgets], continuation = Some page2\<rparr>),
                (Some page2, Inr \<lparr>result = [tools], continuation = None\<rparr>)])
     names_only 0 ''x'' = Some (Inr [''widgets'', ''Gadgets'', ''dev-tools''], 2)"
proof -
  let ?r1 = "\<lparr>result = [widgets, gadgets], continuation = Some page2\<rparr>"
  let ?r2 = "\<lparr>result = [tools], continuation = None\<rparr>"
  let ?g = "scripted [(None, Inr ?r1), (Some page2, Inr ?r2)]"
  have "fetched ?g 0 None [?r1] = Some (Some page2, 1) \<and>
        ?g 1 (Some page2) = (Inr ?r2, 2) \<and>
        \<not> loop_condition (continuation ?r2) \<and>
        [''widgets'', ''Gadgets'', ''dev-tools''] =
          names_only ''x'' (concat (map result [?r1]) @ result ?r2) name html_url"
    by (simp add: scripted_def loop_condition_def page2_def names_only_def
        widgets_def gadgets_def tools_def)
  then show ?thesis
    using autocomplete_pages_in_order [of ?g names_only 0 "''x''" "[''widgets'', ''Gadgets'', ''dev-tools'']" 2]
    by blast
qed

text \<open>
  Claim C3 as it is worded (the loop runs until the returned continuation is null) fails:
  here the first response carries a continuation that is not null, but without a
  \<open>nextUrl\<close>; a request with that continuation would be answered with a second page; the
  formula returns after one request with the first page only.
\<close>

theorem autocomplete_stops_at_non_null_counterexample:
  "fst (scripted [(None, Inr \<lparr>result = [widgets], continuation = Some numbered\<rparr>),
                  (Some numbered, Inr \<lparr>result = [tools], continuation = None\<rparr>)] 0 None) =
     Inr \<lparr>result = [widgets], continuation = Some numbered\<rparr> \<and>
   Some numbered \<noteq> None \<and>
   fst (scripted [(None, Inr \<lparr>result = [widgets], continuation = Some numbered\<rparr>),
                  (Some numbered, Inr \<lparr>result = [tools], continuation = None\<rparr>)] 1 (Some numbered)) =
     Inr \<lparr>result = [tools], continuation = None\<rparr> \<and>
   autocomplete
     (scripted [(None, Inr \<lparr>result = [widgets], continuation = Some numbered\<rparr>),
                (Some numbered, Inr \<lparr>result = [tools], continuation = None\<rparr>)])
     names_only 0 [] = Some (Inr [''widgets''], 1)"
  by (simp add: autocomplete_def autocomplete_loop.simps scripted_def loop_condition_def
      numbered_def names_only_def widgets_def)

text \<open>
  Claim C7. When a call of \<open>getRepos\<close> throws, after any number of pages fetched, the
  formula fails with that same error: the records accumulated so far are not returned
  and the search helper is not called.
\<close>

theorem autocomplete_fetch_error:
  assumes "fetched getRepos w None rs = Some (c1, w1)"
    and "getRepos w1 c1 = (Inl e, w')"
  shows "autocomplete getRepos searchObjects w search = Some (Inl e, w')"
proof -
  have "autocomplete_loop getRepos [] None w =
        autocomplete_loop getRepos ([] @ concat (map result rs)) c1 w1"
    by (rule loop_fetched [OF assms(1)])
  also have "\<dots> = Some (Inl e, w')"
    by (rule loop_step_error) (rule assms(2))
  finally show ?thesis
    by (simp add: autocomplete_def)
qed

text \<open>
  An instance of C7: the first page arrives, the second request fails in transport.
\<close>

theorem autocomplete_fetch_error_witness:
  "autocomplete
     (scripted [(None, Inr \<lparr>result = [widgets, gadgets], continuation = Some page2\<rparr>),
                (Some page2, Inl TransientFetchError)])
     names_only 0 ''zzz'' = Some (Inl TransientFetchError, 2)"
proof -
  let ?r1 = "\<lparr>result = [widgets, gadgets], continuation = Some page2\<rparr>"
  let ?g = "scripted [(None, Inr ?r1), (Some page2, Inl TransientFetchError)]"
  have 1: "fetched ?g 0 None [?r1] = Some (Some page2, 1)"
    by (simp add: scripted_def loop_condition_def page2_def)
  have 2: "?g 1 (Some page2) = (Inl TransientFetchError, 2)"
    by (simp add: scripted_def)
  show ?thesis
    by (rule autocomplete_fetch_error [OF 1 2])
qed

text \<open>
  Extra X1. The loop raises no error of its own: the formula fails with an error out of
  the loop exactly when some call of \<open>getRepos\<close> in the chain of fetches threw that
  error.
\<close>

theorem autocomplete_error_origin:
  "autocomplete getRepos searchObjects w search = Some (Inl e, w') \<longleftrightarrow>
   (\<exists>rs c1 w1. fetched getRepos w None rs = Some (c1, w1) \<and> getRepos w1 c1 = (Inl e, w'))"
proof
  assume "autocomplete getRepos searchObjects w search = Some (Inl e, w')"
  then have l: "autocomplete_loop getRepos [] None w = Some (Inl e, w')"
    by (auto simp: autocomplete_def split: option.splits prod.splits sum.splits)
  from loop_returns [OF l]
  show "\<exists>rs c1 w1. fetched getRepos w None rs = Some (c1, w1) \<and> getRepos w1 c1 = (Inl e, w')"
    unfolding loop_outcome_def by auto
next
  assume "\<exists>rs c1 w1. fetched getRepos w None rs = Some (c1, w1) \<and> getRepos w1 c1 = (Inl e, w')"
  then obtain rs c1 w1 where f: "fetched getRepos w None rs = Some (c1, w1)"
    and g: "getRepos w1 c1 = (Inl e, w')"
    by blast
  have "autocomplete_loop getRepos [] None w =
        autocomplete_loop getRepos ([] @ concat (map result rs)) c1 w1"
    by (rule loop_fetched [OF f])
  also have "\<dots> = Some (Inl e, w')"
    by (rule loop_step_error) (rule g)
  finally show "autocomplete getRepos searchObjects w search = Some (Inl e, w')"
    by (simp add: autocomplete_def)
qed

text \<open>
  Claim C8. A page with zero records and a null continuation is a terminal page and
  not an error, in both loops. The aggregation loop of the autocomplete formula, at
  any iteration, returns the results accumulated so far when \<open>getRepos\<close> answers with
  such a page. In a sync, the step that fetches such a page returns zero rows and no
  continuation, and the sequence of steps ends there with the rows accumulated so far.
\<close>

theorem empty_last_page:
  "(getRepos w c = (Inr \<lparr>result = [], continuation = None\<rparr>, w') \<longrightarrow>
      autocomplete_loop getRepos acc c w = Some (Inr acc, w')) \<and>
   (step_request kind params prior = Inr req \<and>
    fetch v req = (Inr \<lparr>records = [], page_continuation = None\<rparr>, v') \<longrightarrow>
      step fetch mapper kind params prior v =
        (Inr \<lparr>rows = [], next_continuation = None\<rparr>, v') \<and>
      sync_sequence fetch mapper kind params rows_acc prior v = Some (Inr rows_acc, v'))"
proof (intro conjI impI)
  assume g: "getRepos w c = (Inr \<lparr>result = [], continuation = None\<rparr>, w')"
  have n: "\<not> loop_condition (continuation \<lparr>result = [], continuation = None\<rparr>)"
    by (simp add: loop_condition_def)
  have "autocomplete_loop getRepos acc c w =
        Some (Inr (acc @ result \<lparr>result = [], continuation = None\<rparr>), w')"
    by (rule loop_step_last) (rule g, rule n)
  then show "autocomplete_loop getRepos acc c w = Some (Inr acc, w')" by simp
next
  assume a: "step_request kind params prior = Inr req \<and>
    fetch v req = (Inr \<lparr>records = [], page_continuation = None\<rparr>, v')"
  then show s: "step fetch mapper kind params prior v =
      (Inr \<lparr>rows = [], next_continuation = None\<rparr>, v')"
    by (simp add: step_def)
  show "sync_sequence fetch mapper kind params rows_acc prior v = Some (Inr rows_acc, v')"
    by (subst sync_sequence.simps) (simp add: s)
qed

text \<open>
  An instance of C8, each loop run from its start: a page of two repos and then an
  empty last page; a first page of two issues of \<open>acme/widgets\<close> with a next-page token
  and then an empty last page.
\<close>

theorem empty_last_page_witness:
  "autocomplete_loop
     (scripted [(None, Inr \<lparr>result = [widgets, gadgets], continuation = Some page2\<rparr>),
                (Some page2, Inr \<lparr>result = [], continuation = None\<rparr>)])
     [] None 0 = Some (Inr [widgets, gadgets], 2) \<and>
   sync_sequence
     (scripted_pages
        [(\<lparr>http_method = ''GET'',
           endpoint = ListEndpoint Issues \<lparr>owner = ''acme'', name' = ''widgets''\<rparr>,
           query = [(''state'', ''open'')]\<rparr>,
          Inr \<lparr>records = [''Crash on start'', ''Typo in README''],
               page_continuation = Some ''https://api.github.com/repositories/1/issues?page=2''\<rparr>),
         (\<lparr>http_method = ''GET'',
           endpoint = NextPage ''https://api.github.com/repositories/1/issues?page=2'',
           query = []\<rparr>,
          Inr \<lparr>records = [], page_continuation = None\<rparr>)])
     title_row Issues
     \<lparr>repoUrl = ''https://github.com/acme/widgets'', filters = \<lparr>base = None, state = None\<rparr>\<rparr>
     [] None 0 =
   Some (Inr [''Crash on start'', ''Typo in README''], 2)"
proof -
  let ?r1 = "\<lparr>result = [widgets, gadgets], continuation = Some page2\<rparr>"
  let ?g = "scripted [(None, Inr ?r1), (Some page2, Inr \<lparr>result = [], continuation = None\<rparr>)]"
  let ?tok = "''https://api.github.com/repositories/1/issues?page=2''"
  let ?req1 = "\<lparr>http_method = ''GET'',
           endpoint = ListEndpoint Issues \<lparr>owner = ''acme'', name' = ''widgets''\<rparr>,
           query = [(''state'', ''open'')]\<rparr>"
  let ?req2 = "\<lparr>http_method = ''GET'', endpoint = NextPage ?tok, query = []\<rparr>"
  let ?f = "scripted_pages
        [(?req1, Inr \<lparr>records = [''Crash on start'', ''Typo in README''],
               page_continuation = Some ?tok\<rparr>),
         (?req2, Inr \<lparr>records = [], page_continuation = None\<rparr>)]"
  let ?p = "\<lparr>repoUrl = ''https://github.com/acme/widgets'',
            filters = \<lparr>base = None, state = None\<rparr>\<rparr>"
  have g1: "?g 0 None = (Inr ?r1, 1)"
    by (simp add: scripted_def)
  have c1: "loop_condition (continuation ?r1)"
    by (simp add: loop_condition_def page2_def)
  have g2: "?g 1 (Some page2) = (Inr \<lparr>result = [], continuation = None\<rparr>, 2)"
    by (simp add: scripted_def)
  have "autocomplete_loop ?g [] None 0 =
        autocomplete_loop ?g ([] @ result ?r1) (continuation ?r1) 1"
    by (rule loop_step_more) (rule g1, rule c1)
  also have "\<dots> = Some (Inr ([] @ result ?r1), 2)"
    using empty_last_page [THEN conjunct1, of ?g 1 "Some page2" 2 "[] @ result ?r1"] g2
    by simp
  finally have loop: "autocomplete_loop ?g [] None 0 = Some (Inr [widgets, gadgets], 2)"
    by simp
  have r: "resolve ''https://github.com/acme/widgets'' =
           Inr \<lparr>owner = ''acme'', name' = ''widgets''\<rparr>"
    by (simp add: resolve_def strip_scheme_def strip_trailing_slash_def HOST_def
        path_segment_def url_safe_def)
  have s1: "step ?f title_row Issues ?p None 0 =
            (Inr \<lparr>rows = [''Crash on start'', ''Typo in README''],
                  next_continuation = Some ?tok\<rparr>, 1)"
    by (simp add: step_def step_request_def r build_def scripted_pages_def title_row_def)
  have q2: "step_request Issues ?p (Some ?tok) = Inr ?req2"
    by (simp add: step_request_def)
  have f2: "?f 1 ?req2 = (Inr \<lparr>records = [], page_continuation = None\<rparr>, 2)"
    by (simp add: scripted_pages_def)
  have "sync_sequence ?f title_row Issues ?p [] None 0 =
        sync_sequence ?f title_row Issues ?p [''Crash on start'', ''Typo in README'']
          (Some ?tok) 1"
    by (subst sync_sequence.simps) (simp add: s1)
  also have "\<dots> = Some (Inr [''Crash on start'', ''Typo in README''], 2)"
    using empty_last_page [THEN conjunct2, of Issues ?p "Some ?tok" ?req2 ?f 1 2] q2 f2
    by blast
  finally show ?thesis using loop by simp
qed

text \<open>
  Claim C9. The loop ends at the first response whose continuation is null, or is an
  object whose \<open>nextUrl\<close> is absent or falsy: the formula returns, after exactly one
  request per page (counted by \<open>counting\<close>).
\<close>

theorem autocomplete_terminates:
  assumes "fetched getRepos w None rs = Some (c1, w1)"
    and "getRepos w1 c1 = (Inr r, w')"
    and "continuation r = None \<or>
         (\<exists>k. continuation r = Some k \<and>
            (map_of k ''nextUrl'' = None \<or>
             (\<exists>v. map_of k ''nextUrl'' = Some v \<and> \<not> truthy v)))"
  shows "autocomplete (counting getRepos) searchObjects (0, w) search =
         Some (Inr (searchObjects search (concat (map result rs) @ result r) name html_url),
               (Suc (length rs), w'))"
proof -
  from assms(3) have n: "\<not> loop_condition (continuation r)"
    using not_loop_condition_None not_loop_condition_falsy by metis
  have f: "fetched (counting getRepos) (0, w) None rs = Some (c1, (length rs, w1))"
    by (simp add: fetched_counting assms(1))
  have g: "counting getRepos (length rs, w1) c1 = (Inr r, (Suc (length rs), w'))"
    by (simp add: counting_def assms(2))
  have "autocomplete_loop (counting getRepos) [] None (0, w) =
        autocomplete_loop (counting getRepos) ([] @ concat (map result rs)) c1 (length rs, w1)"
    by (rule loop_fetched [OF f])
  also have "\<dots> = Some (Inr (([] @ concat (map result rs)) @ result r), (Suc (length rs), w'))"
    by (rule loop_step_last) (rule g, rule n)
  finally show ?thesis
    by (simp add: autocomplete_def)
qed

text \<open>
  An instance of C9: the third response carries \<open>{nextUrl: ""}\<close>; three requests are made.
\<close>

theorem autocomplete_terminates_witness:
  "autocomplete
     (counting (scripted
        [(None, Inr \<lparr>result = [widgets], continuation = Some page2\<rparr>),
         (Some page2, Inr \<lparr>result = [gadgets], continuation = Some page3\<rparr>),
         (Some page3, Inr \<lparr>result = [tools], continuation = Some [(''nextUrl'', CString [])]\<rparr>)]))
     names_only (0, 0) ''a'' = Some (Inr [''widgets'', ''Gadgets'', ''dev-tools''], (3, 3))"
proof -
  let ?r1 = "\<lparr>result = [widgets], continuation = Some page2\<rparr>"
  let ?r2 = "\<lparr>result = [gadgets], continuation = Some page3\<rparr>"
  let ?r3 = "\<lparr>result = [tools], continuation = Some [(''nextUrl'', CString [])]\<rparr>"
  let ?g = "scripted [(None, Inr ?r1), (Some page2, Inr ?r2), (Some page3, Inr ?r3)]"
  have 1: "fetched ?g 0 None [?r1, ?r2] = Some (Some page3, 2)"
    by (simp add: scripted_def loop_condition_def page2_def page3_def)
  have 2: "?g 2 (Some page3) = (Inr ?r3, 3)"
    by (simp add: scripted_def)
  have 3: "continuation ?r3 = None \<or>
         (\<exists>k. continuation ?r3 = Some k \<and>
            (map_of k ''nextUrl'' = None \<or>
             (\<exists>v. map_of k ''nextUrl'' = Some v \<and> \<not> truthy v)))"
    by simp
  show ?thesis
    using autocomplete_terminates [OF 1 2 3, of names_only "''a''"]
    by (simp add: names_only_def widgets_def gadgets_def tools_def)
qed

section \<open>Claims about the declared parameters\<close>

lemmas parameter_defs =
  RepoUrlParameter_def TitleParameter_def BodyParameter_def LabelsParameter_def
  AssigneesParameter_def IssueNumberParameter_def IssueTitleParameter_def
  IssueBodyParameter_def IssueStateParameter_def BaseParameterOptional_def
  PullRequestStateOptional_def IssueStateOptional_def

text \<open>
  Claim C10. \<open>CreateIssue\<close> takes \<open>repoUrl\<close>, \<open>title\<close>, \<open>body\<close>, \<open>labels\<close>, \<open>assignees\<close>:
  the first two are required and the rest optional, and all five are of type String, so
  that labels and assignees are single (comma-separated) strings and not string arrays.
  \<open>UpdateIssue\<close> takes \<open>repoUrl\<close>, \<open>issueNumber\<close>, \<open>title\<close>, \<open>body\<close>, \<open>state\<close>: the
  first two are required and the rest optional.
\<close>

theorem mutation_parameters:
  "map param_name (parameters CreateIssue_formula) =
     [''repoUrl'', ''title'', ''body'', ''labels'', ''assignees''] \<and>
   map required (parameters CreateIssue_formula) = [True, True, False, False, False] \<and>
   map param_type (parameters CreateIssue_formula) =
     [ParameterType_String, ParameterType_String, ParameterType_String,
      ParameterType_String, ParameterType_String] \<and>
   map param_name (parameters UpdateIssue_formula) =
     [''repoUrl'', ''issueNumber'', ''title'', ''body'', ''state''] \<and>
   map required (parameters UpdateIssue_formula) = [True, True, False, False, False]"
  by (simp add: CreateIssue_formula_def UpdateIssue_formula_def required_def parameter_defs)

section \<open>Claims about the components modelled from the design\<close>

subsection \<open>RepoResolver\<close>

lemma split_on_no_separator: "d \<notin> set s \<Longrightarrow> split_on d s = [s]"
  by (induction s) auto

lemma split_on_first: "d \<notin> set a \<Longrightarrow> split_on d (a @ d # rest) = a # split_on d rest"
  by (induction a) auto

lemma split_on_Cons:
  "split_on d s = p # ps \<Longrightarrow>
   d \<notin> set p \<and> (if ps = [] then s = p else \<exists>rest. s = p @ d # rest \<and> split_on d rest = ps)"
proof (induction s arbitrary: p ps)
  case Nil
  then show ?case by simp
next
  case (Cons c cs)
  show ?case
  proof (cases "c = d")
    case True
    with Cons.prems have "p = []" and "ps = split_on d cs" by simp_all
    moreover have "split_on d cs \<noteq> []" by (cases cs) (auto split: list.splits)
    ultimately show ?thesis using True by simp
  next
    case False
    obtain q qs where q: "split_on d cs = q # qs"
      by (cases "split_on d cs") (cases cs; auto split: list.splits if_splits)+
    with Cons.prems False have p: "p = c # q" and ps: "ps = qs" by simp_all
    from Cons.IH [OF q] have "d \<notin> set q"
      and "if qs = [] then cs = q else \<exists>rest. cs = q @ d # rest \<and> split_on d rest = qs"
      by simp_all
    with p ps False show ?thesis by (auto split: if_splits)
  qed
qed

lemma split_on_three:
  assumes "split_on d s = [a, b, c]"
  shows "s = a @ d # b @ d # c \<and> d \<notin> set a \<and> d \<notin> set b \<and> d \<notin> set c"
proof -
  from split_on_Cons [OF assms] obtain r1 where
    a: "d \<notin> set a" and s: "s = a @ d # r1" and r1: "split_on d r1 = [b, c]"
    by auto
  from split_on_Cons [OF r1] obtain r2 where
    b: "d \<notin> set b" and r1': "r1 = b @ d # r2" and r2: "split_on d r2 = [c]"
    by auto
  from split_on_Cons [OF r2] have "d \<notin> set c" and "r2 = c" by simp_all
  with a b s r1' show ?thesis by simp
qed

lemma strip_scheme_Some:
  assumes "strip_scheme url = Some rest"
  shows "\<exists>scheme. scheme \<in> schemes \<and> url = scheme @ rest"
proof (cases "prefix ''https://'' url")
  case True
  then obtain zs where "url = ''https://'' @ zs" unfolding prefix_def by blast
  with assms True have "url = ''https://'' @ rest" by (simp add: strip_scheme_def)
  moreover have "''https://'' \<in> schemes" by (simp add: schemes_def)
  ultimately show ?thesis by blast
next
  case False
  with assms have p: "prefix ''http://'' url" and r: "rest = drop 7 url"
    by (auto simp: strip_scheme_def split: if_splits)
  from p obtain zs where "url = ''http://'' @ zs" unfolding prefix_def by blast
  with r have "url = ''http://'' @ rest" by simp
  moreover have "''http://'' \<in> schemes" by (simp add: schemes_def)
  ultimately show ?thesis by blast
qed

lemma strip_scheme_scheme:
  assumes "scheme \<in> schemes"
  shows "strip_scheme (scheme @ rest) = Some rest"
proof -
  from assms have "scheme = ''https://'' \<or> scheme = ''http://''"
    unfolding schemes_def by blast
  then show ?thesis
  proof
    assume "scheme = ''https://''"
    then show ?thesis by (simp add: strip_scheme_def)
  next
    assume "scheme = ''http://''"
    then show ?thesis by (simp add: strip_scheme_def)
  qed
qed

lemma strip_trailing_slash_cases:
  "\<exists>slash. slash \<in> trailing \<and> s = strip_trailing_slash s @ slash"
proof (cases "s \<noteq> [] \<and> last s = CHR ''/''")
  case True
  then have "s \<noteq> []" by simp
  then have "butlast s @ [last s] = s" by (rule append_butlast_last_id)
  with True have "s = strip_trailing_slash s @ ''/''" by (simp add: strip_trailing_slash_def)
  moreover have "''/'' \<in> trailing" by (simp add: trailing_def)
  ultimately show ?thesis by blast
next
  case False
  then have "s = strip_trailing_slash s @ []" by (auto simp: strip_trailing_slash_def)
  moreover have "[] \<in> trailing" by (simp add: trailing_def)
  ultimately show ?thesis by blast
qed

lemma path_segment_no_slash:
  assumes "path_segment s"
  shows "s \<noteq> [] \<and> CHR ''/'' \<notin> set s"
proof -
  have "\<not> url_safe (CHR ''/'')" by (simp add: url_safe_def)
  moreover from assms have "s \<noteq> []" and "\<forall>c\<in>set s. url_safe c"
    by (simp_all add: path_segment_def list_all_iff)
  ultimately show ?thesis by blast
qed

lemma strip_trailing_slash_segment:
  assumes nm: "path_segment nm" and sl: "slash \<in> trailing"
  shows "strip_trailing_slash (pre @ nm @ slash) = pre @ nm"
proof -
  from path_segment_no_slash [OF nm]
  have ne: "nm \<noteq> []" and "last nm \<in> set nm" and "CHR ''/'' \<notin> set nm"
    by simp_all
  then have l: "last nm \<noteq> CHR ''/''" by metis
  from sl have "slash = [] \<or> slash = ''/''" unfolding trailing_def by blast
  then show ?thesis
  proof
    assume "slash = []"
    with ne l show ?thesis by (simp add: strip_trailing_slash_def)
  next
    assume "slash = ''/''"
    then have "pre @ nm @ slash = (pre @ nm) @ [CHR ''/'']" by simp
    then show ?thesis by (simp add: strip_trailing_slash_def del: append_assoc)
  qed
qed

lemma resolve_valid:
  assumes "is_repo_url url ow nm"
  shows "resolve url = Inr \<lparr>owner = ow, name' = nm\<rparr>"
proof -
  from assms obtain scheme slash where
    ow: "path_segment ow" and nm: "path_segment nm" and
    sc: "scheme \<in> schemes" and sl: "slash \<in> trailing" and
    u: "url = repo_url scheme ow nm slash"
    unfolding is_repo_url_def by blast
  let ?rest = "(HOST @ ''/'' @ ow @ ''/'') @ nm @ slash"
  have url: "url = scheme @ ?rest"
    by (simp add: u repo_url_def)
  have s: "strip_scheme (scheme @ ?rest) = Some ?rest"
    by (rule strip_scheme_scheme [OF sc])
  have t: "strip_trailing_slash ?rest = (HOST @ ''/'' @ ow @ ''/'') @ nm"
    by (rule strip_trailing_slash_segment [OF nm sl])
  have h: "CHR ''/'' \<notin> set HOST" by (simp add: HOST_def)
  from path_segment_no_slash [OF ow] path_segment_no_slash [OF nm]
  have o: "CHR ''/'' \<notin> set ow" and n: "CHR ''/'' \<notin> set nm"
    by simp_all
  have "split_on (CHR ''/'') ((HOST @ ''/'' @ ow @ ''/'') @ nm) =
        split_on (CHR ''/'') (HOST @ CHR ''/'' # (ow @ CHR ''/'' # nm))"
    by simp
  also have "\<dots> = HOST # split_on (CHR ''/'') (ow @ CHR ''/'' # nm)"
    by (rule split_on_first [OF h])
  also have "\<dots> = HOST # ow # split_on (CHR ''/'') nm"
    by (simp add: split_on_first [OF o])
  also have "\<dots> = [HOST, ow, nm]"
    by (simp add: split_on_no_separator [OF n])
  finally have sp: "split_on (CHR ''/'') ((HOST @ ''/'' @ ow @ ''/'') @ nm) = [HOST, ow, nm]" .
  have "resolve (scheme @ ?rest) = Inr \<lparr>owner = ow, name' = nm\<rparr>"
    by (simp only: resolve_def s option.case t sp list.case ow nm refl simp_thms if_True)
  then show ?thesis
    by (simp only: url)
qed

lemma case_three:
  "(case ps of [h, ow, nm] \<Rightarrow> f h ow nm | _ \<Rightarrow> d) = x \<Longrightarrow> x \<noteq> d \<Longrightarrow>
   \<exists>h ow nm. ps = [h, ow, nm] \<and> x = f h ow nm"
  by (auto split: list.splits)

lemma resolve_Inr:
  assumes "resolve url = Inr \<lparr>owner = ow, name' = nm\<rparr>"
  shows "is_repo_url url ow nm"
proof -
  let ?ref = "\<lparr>owner = ow, name' = nm\<rparr>"
  from assms obtain rest where s: "strip_scheme url = Some rest"
    by (cases "strip_scheme url") (simp_all add: resolve_def)
  let ?f = "\<lambda>h ow nm. if h = HOST \<and> path_segment ow \<and> path_segment nm
                then Inr \<lparr>owner = ow, name' = nm\<rparr> else Inl InvalidReferenceError"
  from assms s have
    "(case split_on (CHR ''/'') (strip_trailing_slash rest) of
        [h, ow, nm] \<Rightarrow> ?f h ow nm | _ \<Rightarrow> Inl InvalidReferenceError) = Inr ?ref"
    by (simp add: resolve_def)
  from case_three [OF this] obtain h ow' nm' where
    sp: "split_on (CHR ''/'') (strip_trailing_slash rest) = [h, ow', nm']"
    and f: "Inr ?ref = ?f h ow' nm'"
    by auto
  from f have ok: "h = HOST" "path_segment ow'" "path_segment nm'"
    and "?ref = \<lparr>owner = ow', name' = nm'\<rparr>"
    by (simp_all split: if_splits)
  then have eq: "ow' = ow" "nm' = nm" by simp_all
  from split_on_three [OF sp] have
    r: "strip_trailing_slash rest = h @ CHR ''/'' # ow' @ CHR ''/'' # nm'"
    by simp
  from strip_trailing_slash_cases [of rest] obtain slash where
    sl: "slash \<in> trailing" and rest: "rest = strip_trailing_slash rest @ slash"
    by blast
  from strip_scheme_Some [OF s] obtain scheme where
    sc: "scheme \<in> schemes" and u: "url = scheme @ rest"
    by blast
  have "rest = (HOST @ CHR ''/'' # ow @ CHR ''/'' # nm) @ slash"
    using rest r ok(1) eq by simp
  with u have url: "url = repo_url scheme ow nm slash"
    by (simp add: repo_url_def)
  have "path_segment ow" "path_segment nm"
    using ok eq by simp_all
  with sc sl url show ?thesis
    unfolding is_repo_url_def by blast
qed

lemma resolve_Inl:
  assumes "resolve url = Inl e"
  shows "e = InvalidReferenceError"
proof (rule ccontr)
  assume ne: "e \<noteq> InvalidReferenceError"
  from assms ne obtain rest where s: "strip_scheme url = Some rest"
    by (cases "strip_scheme url") (simp_all add: resolve_def)
  let ?f = "\<lambda>h ow nm. if h = HOST \<and> path_segment ow \<and> path_segment nm
                then Inr \<lparr>owner = ow, name' = nm\<rparr> else Inl InvalidReferenceError"
  from assms s have
    "(case split_on (CHR ''/'') (strip_trailing_slash rest) of
        [h, ow, nm] \<Rightarrow> ?f h ow nm | _ \<Rightarrow> Inl InvalidReferenceError) = Inl e"
    by (simp add: resolve_def)
  from case_three [OF this] ne obtain h ow nm where "Inl e = ?f h ow nm"
    by auto
  with ne show False by (simp split: if_splits)
qed

text \<open>
  Claim C4. \<open>resolve\<close> is a function of the string alone. It returns \<open>{owner, name}\<close>
  exactly for the strings \<open>scheme://github.com/owner/name\<close> with scheme \<open>https\<close> or
  \<open>http\<close>, owner and name non-empty URL-safe path segments, and at most one trailing
  slash; for every other string (fewer than two path segments, an empty owner or name,
  a query or fragment in place of a segment, another host, no scheme) it fails with
  \<open>InvalidReferenceError\<close>.
\<close>

theorem resolve_exactly_valid_urls:
  "(resolve url = Inr \<lparr>owner = ow, name' = nm\<rparr> \<longleftrightarrow> is_repo_url url ow nm) \<and>
   (resolve url = Inl InvalidReferenceError \<longleftrightarrow> \<not> (\<exists>ow nm. is_repo_url url ow nm))"
proof -
  have ok: "resolve url = Inr \<lparr>owner = ow, name' = nm\<rparr> \<longleftrightarrow> is_repo_url url ow nm" for ow nm
    using resolve_Inr resolve_valid by blast
  have bad: "resolve url = Inl InvalidReferenceError \<longleftrightarrow> \<not> (\<exists>ow nm. is_repo_url url ow nm)"
  proof (rule iffI)
    assume e: "resolve url = Inl InvalidReferenceError"
    show "\<not> (\<exists>ow nm. is_repo_url url ow nm)"
    proof
      assume "\<exists>ow nm. is_repo_url url ow nm"
      then obtain ow nm where "resolve url = Inr \<lparr>owner = ow, name' = nm\<rparr>"
        using ok by blast
      with e show False by simp
    qed
  next
    assume n: "\<not> (\<exists>ow nm. is_repo_url url ow nm)"
    show "resolve url = Inl InvalidReferenceError"
    proof (cases "resolve url")
      case (Inl e)
      with resolve_Inl [OF Inl] show ?thesis by simp
    next
      case (Inr ref)
      then have "resolve url = Inr \<lparr>owner = owner ref, name' = name' ref\<rparr>" by simp
      with ok n show ?thesis by blast
    qed
  qed
  from ok [of ow nm] bad show ?thesis by (rule conjI)
qed

text \<open>
  Instances of C4: the two schemes, with and without the trailing slash, resolve to the
  same reference; a URL with one path segment is refused, also when a query with a
  slash follows it; so is an owner with a space.
\<close>

theorem resolve_exactly_valid_urls_witness:
  "resolve ''https://github.com/acme/widgets'' = Inr \<lparr>owner = ''acme'', name' = ''widgets''\<rparr> \<and>
   resolve ''http://github.com/acme/widgets/'' = Inr \<lparr>owner = ''acme'', name' = ''widgets''\<rparr> \<and>
   resolve ''https://github.com/acme'' = Inl InvalidReferenceError \<and>
   \<not> (\<exists>ow nm. is_repo_url ''https://github.com/acme'' ow nm) \<and>
   resolve ''https://github.com/acme?x=/y'' = Inl InvalidReferenceError \<and>
   \<not> (\<exists>ow nm. is_repo_url ''https://github.com/acme?x=/y'' ow nm) \<and>
   resolve ''https://github.com/a b/c?d#e'' = Inl InvalidReferenceError \<and>
   \<not> (\<exists>ow nm. is_repo_url ''https://github.com/a b/c?d#e'' ow nm)"
proof -
  have seg: "path_segment ''acme''" "path_segment ''widgets''"
    by (simp_all add: path_segment_def url_safe_def)
  have 1: "is_repo_url ''https://github.com/acme/widgets'' ''acme'' ''widgets''"
  proof -
    have "''https://'' \<in> schemes" "[] \<in> trailing"
      "''https://github.com/acme/widgets'' = repo_url ''https://'' ''acme'' ''widgets'' []"
      by (simp_all add: schemes_def trailing_def repo_url_def HOST_def)
    with seg show ?thesis unfolding is_repo_url_def by blast
  qed
  have 2: "is_repo_url ''http://github.com/acme/widgets/'' ''acme'' ''widgets''"
  proof -
    have "''http://'' \<in> schemes" "''/'' \<in> trailing"
      "''http://github.com/acme/widgets/'' = repo_url ''http://'' ''acme'' ''widgets'' ''/''"
      by (simp_all add: schemes_def trailing_def repo_url_def HOST_def)
    with seg show ?thesis unfolding is_repo_url_def by blast
  qed
  have 3: "resolve ''https://github.com/acme'' = Inl InvalidReferenceError"
    by (simp add: resolve_def strip_scheme_def strip_trailing_slash_def)
  have 4: "resolve ''https://github.com/acme?x=/y'' = Inl InvalidReferenceError"
    by (simp add: resolve_def strip_scheme_def strip_trailing_slash_def HOST_def
        path_segment_def url_safe_def)
  have 5: "resolve ''https://github.com/a b/c?d#e'' = Inl InvalidReferenceError"
    by (simp add: resolve_def strip_scheme_def strip_trailing_slash_def HOST_def
        path_segment_def url_safe_def)
  have a: "resolve ''https://github.com/acme/widgets'' = Inr \<lparr>owner = ''acme'', name' = ''widgets''\<rparr>"
    by (rule resolve_exactly_valid_urls [THEN conjunct1, THEN iffD2, OF 1])
  have b: "resolve ''http://github.com/acme/widgets/'' = Inr \<lparr>owner = ''acme'', name' = ''widgets''\<rparr>"
    by (rule resolve_exactly_valid_urls [THEN conjunct1, THEN iffD2, OF 2])
  have c: "\<not> (\<exists>ow nm. is_repo_url ''https://github.com/acme'' ow nm)"
    by (rule resolve_exactly_valid_urls [of _ "[]" "[]", THEN conjunct2, THEN iffD1, OF 3])
  have d: "\<not> (\<exists>ow nm. is_repo_url ''https://github.com/acme?x=/y'' ow nm)"
    by (rule resolve_exactly_valid_urls [of _ "[]" "[]", THEN conjunct2, THEN iffD1, OF 4])
  have e: "\<not> (\<exists>ow nm. is_repo_url ''https://github.com/a b/c?d#e'' ow nm)"
    by (rule resolve_exactly_valid_urls [of _ "[]" "[]", THEN conjunct2, THEN iffD1, OF 5])
  from a b 3 c 4 d 5 e show ?thesis by (intro conjI)
qed

subsection \<open>RequestBuilder\<close>

text \<open>
  Claim C2. With a continuation token, the request is the token and nothing else: two
  filter sets give the same request, the request addresses the token's page with no
  query parameter added, and the request a continuing SyncStep builds, whatever its
  params, is the one \<open>build\<close> gives for the token.
\<close>

theorem build_ignores_filters_with_token:
  "build kind repo f1 (Some t) = build kind repo f2 (Some t) \<and>
   endpoint (build kind repo f1 (Some t)) = NextPage t \<and>
   query (build kind repo f1 (Some t)) = [] \<and>
   step_request kind p1 (Some t) = step_request kind p2 (Some t) \<and>
   step_request kind p1 (Some t) = Inr (build kind repo f1 (Some t))"
  by (simp add: build_def step_request_def)

text \<open>
  Claim C5. On the first call (no continuation) the request of a sync addresses the list
  endpoint of its resource kind for the resolved repository, its query carries \<open>state\<close>
  (the filter when given, \<open>open\<close> otherwise) and \<open>base\<close> when given. The state
  parameter of both sync formulas of the pack, \<open>PullRequests\<close> and \<open>SyncIssues\<close>, is
  optional, so it may be unspecified.
\<close>

theorem first_request_encodes_filters:
  "step_request kind p None =
     (case resolve (repoUrl p) of
        Inl e \<Rightarrow> Inl e
      | Inr repo \<Rightarrow> Inr (build kind repo (filters p) None)) \<and>
   endpoint (build kind repo f None) = ListEndpoint kind repo \<and>
   map_of (query (build kind repo f None)) ''state'' =
     Some (case state f of None \<Rightarrow> ''open'' | Some s \<Rightarrow> s) \<and>
   map_of (query (build kind repo (f\<lparr>state := None\<rparr>) None)) ''state'' = Some ''open'' \<and>
   map_of (query (build kind repo f None)) ''base'' = base f \<and>
   map (\<lambda>q. (param_name q, required q)) (parameters PullRequests_formula) =
     [(''repoUrl'', True), (''base'', False), (''state'', False)] \<and>
   map (\<lambda>q. (param_name q, required q)) (parameters SyncIssues_formula) =
     [(''repoUrl'', True), (''state'', False)]"
proof -
  have "map_of (query (build kind repo f None)) ''state'' =
     Some (case state f of None \<Rightarrow> ''open'' | Some s \<Rightarrow> s)"
    by (cases "base f") (simp_all add: build_def)
  moreover have "map_of (query (build kind repo f None)) ''base'' = base f"
    by (cases "base f") (simp_all add: build_def)
  moreover have "map_of (query (build kind repo (f\<lparr>state := None\<rparr>) None)) ''state'' = Some ''open''"
    by (cases "base f") (simp_all add: build_def)
  moreover have "map (\<lambda>q. (param_name q, required q)) (parameters PullRequests_formula) =
     [(''repoUrl'', True), (''base'', False), (''state'', False)]"
    by (simp add: PullRequests_formula_def required_def parameter_defs)
  moreover have "map (\<lambda>q. (param_name q, required q)) (parameters SyncIssues_formula) =
     [(''repoUrl'', True), (''state'', False)]"
    by (simp add: SyncIssues_formula_def required_def parameter_defs)
  ultimately show ?thesis
    by (simp add: step_request_def build_def)
qed

text \<open>
  An instance of C5, the scenario of the design: the issues of \<open>acme/widgets\<close> with no
  state given; and pull requests with a base branch and state \<open>all\<close>.
\<close>

theorem first_request_encodes_filters_witness:
  "step_request Issues
     \<lparr>repoUrl = ''https://github.com/acme/widgets'', filters = \<lparr>base = None, state = None\<rparr>\<rparr> None =
   Inr \<lparr>http_method = ''GET'',
        endpoint = ListEndpoint Issues \<lparr>owner = ''acme'', name' = ''widgets''\<rparr>,
        query = [(''state'', ''open'')]\<rparr> \<and>
   step_request PullRequests
     \<lparr>repoUrl = ''https://github.com/acme/widgets'',
      filters = \<lparr>base = Some ''main'', state = Some ''all''\<rparr>\<rparr> None =
   Inr \<lparr>http_method = ''GET'',
        endpoint = ListEndpoint PullRequests \<lparr>owner = ''acme'', name' = ''widgets''\<rparr>,
        query = [(''base'', ''main''), (''state'', ''all'')]\<rparr>"
proof -
  have r: "resolve ''https://github.com/acme/widgets'' = Inr \<lparr>owner = ''acme'', name' = ''widgets''\<rparr>"
    by (simp add: resolve_def strip_scheme_def strip_trailing_slash_def HOST_def
        path_segment_def url_safe_def)
  show ?thesis
    using first_request_encodes_filters
      [of Issues "\<lparr>repoUrl = ''https://github.com/acme/widgets'', filters = \<lparr>base = None, state = None\<rparr>\<rparr>"]
      first_request_encodes_filters
      [of PullRequests "\<lparr>repoUrl = ''https://github.com/acme/widgets'',
          filters = \<lparr>base = Some ''main'', state = Some ''all''\<rparr>\<rparr>"]
    by (simp add: r build_def)
qed

end
